theory Spec2Isabelle
  imports Main "HOL-Library.Word"
begin

unbundle bit_operations_syntax

section \<open>The execution tree of the dataset engine\<close>

text \<open>
  A shallow embedding of \<^verbatim>\<open>mindspore/ccsrc/dataset/engine/execution_tree.cc\<close>.
  The operators are C++ objects shared through \<^verbatim>\<open>std::shared_ptr<DatasetOp>\<close>:
  they live in a store indexed by address, a pointer is an address or null
  (\<open>None\<close>), and every member function takes the program state and returns the
  state it leaves. A C++ member \<^verbatim>\<open>name_\<close> is written \<open>name\<close> here (a name of
  the logic cannot end in an underscore).

  Embedded are the constructor, \<^verbatim>\<open>AssociateNode\<close>, \<^verbatim>\<open>AssignRoot\<close>, \<^verbatim>\<open>Print\<close> and
  \<^verbatim>\<open>PrintNode\<close> (as far as they return), \<^verbatim>\<open>Launch\<close>, the iterator, \<^verbatim>\<open>Prepare\<close> and
  its phases, and \<^verbatim>\<open>PrepareNode\<close>. \<^verbatim>\<open>LaunchWorkers\<close> and the two stacks of the
  prepare phase are left out: no property below is about them, and nothing
  embedded here reads them.
\<close>

subsection \<open>Status\<close>

text \<open>
  Modelled from the spec: \<^verbatim>\<open>Status\<close> and the macros \<^verbatim>\<open>RETURN_STATUS_UNEXPECTED\<close> and
  \<^verbatim>\<open>RETURN_IF_NOT_OK\<close> are declared in \<^verbatim>\<open>status.h\<close>, outside the file embedded
  here. A \<^verbatim>\<open>Status\<close> is \<^verbatim>\<open>Status::OK()\<close> or an error with a code and a message.
  The only error this file builds itself is the one of
  \<^verbatim>\<open>RETURN_STATUS_UNEXPECTED(msg)\<close>, which carries the message \<^verbatim>\<open>msg\<close>; the spec
  calls it InvalidState where the message reports a wrong tree state. Every other
  error comes from a collaborator (a pass, an operator hook, the task group, the
  profiling manager) and is passed on as it is by \<^verbatim>\<open>RETURN_IF_NOT_OK\<close>.
\<close>

datatype StatusCode = kUnexpectedError | kOtherError nat

datatype Status = OK | Error StatusCode string

definition RETURN_STATUS_UNEXPECTED :: "string \<Rightarrow> Status" where
  "RETURN_STATUS_UNEXPECTED err_msg = Error kUnexpectedError err_msg"

subsection \<open>std::to_string on int\<close>

definition digit_char :: "nat \<Rightarrow> char" where
  "digit_char n = ''0123456789'' ! (n mod 10)"

fun to_string_nat :: "nat \<Rightarrow> string" where
  "to_string_nat n =
     (if n < 10 then [digit_char n]
      else to_string_nat (n div 10) @ [digit_char (n mod 10)])"

declare to_string_nat.simps [simp del]

definition to_string :: "int \<Rightarrow> string" where
  "to_string i = (if i < 0 then CHR ''-'' # to_string_nat (nat (- i)) else to_string_nat (nat i))"

subsection \<open>Data\<close>

text \<open>
  Modelled from the spec: the enumeration \<^verbatim>\<open>TreeState\<close> is declared in
  \<^verbatim>\<open>execution_tree.h\<close>, outside the file embedded here. The spec lists the states
  "in strict forward order": Init, Building, Prepare, Ready, Executing;
  \<open>TreeState_int\<close> is \<^verbatim>\<open>static_cast<int>\<close> on them, counting from 0 in that order.
\<close>

datatype TreeState =
  kDeTStateInit | kDeTStateBuilding | kDeTStatePrepare | kDeTStateReady | kDeTStateExecuting

fun TreeState_int :: "TreeState \<Rightarrow> int" where
  "TreeState_int kDeTStateInit = 0"
| "TreeState_int kDeTStateBuilding = 1"
| "TreeState_int kDeTStatePrepare = 2"
| "TreeState_int kDeTStateReady = 3"
| "TreeState_int kDeTStateExecuting = 4"

text \<open>
  The state of one operator. This file only ever writes \<^verbatim>\<open>kDeOpRunning\<close>; the other
  values of the enumeration are kept apart from it by a number.
\<close>

datatype OpState = kDeOpRunning | kDeOpOther nat

text \<open>
  One \<^verbatim>\<open>DatasetOp\<close> object: the fields this file reads and writes, and the results of
  its virtual queries \<^verbatim>\<open>inlined()\<close> and \<^verbatim>\<open>PrepareFlags()\<close>. \<open>tree\<close> is the raw
  pointer to the owning tree (null before association), \<open>child\<close> the vector of
  shared pointers to the children, in stored order. The id is a C++ \<^verbatim>\<open>int32_t\<close>:
  32 bits, read as a signed number by \<open>sint\<close>.
\<close>

record DatasetOp =
  operator_id :: "32 word"
  tree :: "nat option"
  state :: OpState
  child :: "nat option list"
  inlined :: bool
  PrepareFlags :: "32 word"

text \<open>
  Modelled from the spec: \<^verbatim>\<open>DatasetOp::kInvalidOperatorId\<close> is declared in
  \<^verbatim>\<open>dataset_op.h\<close>, outside the file embedded here; the spec calls it the
  sentinel "invalid" value an id has before association.
\<close>

definition kInvalidOperatorId :: "32 word" where
  "kInvalidOperatorId = - 1"

text \<open>What a task of the task group runs: the monitor, or an operator by reference.\<close>

datatype callable = MonitorRef | OpRef nat

text \<open>
  The program state: the store of operators (\<open>ops\<close>), the address of the
  \<^verbatim>\<open>ExecutionTree\<close> object (\<open>this_ptr\<close>), and its members.

  Modelled from the spec: the members' types are declared in \<^verbatim>\<open>execution_tree.h\<close>,
  outside the file embedded here. \<open>id_count\<close> is "the next id to assign (monotonic
  counter)", a C++ \<^verbatim>\<open>int32_t\<close> as the ids are: 32 bits, read as a signed number
  by \<open>sint\<close>. \<open>tg\<close> is the task group, "a cooperative group of
  concurrently running named tasks": the list of the tasks spawned so far, oldest
  first, each with its label. \<open>prepare_flags\<close> holds the same 32 bits as the local
  \<^verbatim>\<open>uint32_t op_prep_flags\<close> of \<^verbatim>\<open>PrepareNode\<close>.
\<close>

record world =
  ops :: "nat \<Rightarrow> DatasetOp"
  this_ptr :: nat
  tree_state :: TreeState
  id_count :: "32 word"
  root :: "nat option"
  prepare_flags :: "32 word"
  tg :: "(string \<times> callable) list"

text \<open>
  Modelled from the spec: \<^verbatim>\<open>kDePrepNone\<close> is declared outside the file embedded here;
  it is the bitmask with no prepare flag set.
\<close>

definition kDePrepNone :: "32 word" where
  "kDePrepNone = 0"

text \<open>The constructor: a tree at address \<open>t\<close> over the store \<open>h\<close>.\<close>

definition ExecutionTree :: "(nat \<Rightarrow> DatasetOp) \<Rightarrow> nat \<Rightarrow> world" where
  "ExecutionTree h t =
     \<lparr>ops = h, this_ptr = t, tree_state = kDeTStateInit, id_count = 0, root = None,
      prepare_flags = kDePrepNone, tg = []\<rparr>"

subsection \<open>Association and root assignment\<close>

text \<open>
  Both functions dereference their argument \<^verbatim>\<open>op\<close> without a null check: the
  argument is the address of an operator. \<^verbatim>\<open>set_id\<close> and \<^verbatim>\<open>set_tree\<close> write the
  operator's fields \<^verbatim>\<open>operator_id_\<close> and \<^verbatim>\<open>tree_\<close>. The increment \<^verbatim>\<open>id_count_++\<close>
  is on 32 bits: from the largest value, 2147483647, it goes to the smallest,
  -2147483648, as the compiled code does.
\<close>

definition set_id :: "nat \<Rightarrow> 32 word \<Rightarrow> world \<Rightarrow> world" where
  "set_id a i w = w\<lparr>ops := (ops w)(a := (ops w a)\<lparr>operator_id := i\<rparr>)\<rparr>"

definition set_tree :: "nat \<Rightarrow> nat option \<Rightarrow> world \<Rightarrow> world" where
  "set_tree a t w = w\<lparr>ops := (ops w)(a := (ops w a)\<lparr>tree := t\<rparr>)\<rparr>"

definition AssociateNode :: "nat \<Rightarrow> world \<Rightarrow> Status \<times> world" where
  "AssociateNode a w =
     (if tree (ops w a) = Some (this_ptr w) then (OK, w)
      else if tree_state w \<noteq> kDeTStateInit \<and> tree_state w \<noteq> kDeTStateBuilding then
        (RETURN_STATUS_UNEXPECTED
           (''Invalid tree state for adding a node. Current state: ''
              @ to_string (TreeState_int (tree_state w))
              @ '' Expected states: '' @ to_string (TreeState_int kDeTStateInit)
              @ '' or '' @ to_string (TreeState_int kDeTStateBuilding)), w)
      else
        (let w1 = w\<lparr>tree_state := kDeTStateBuilding\<rparr>;
             w2 = set_id a (id_count w1) w1;
             w3 = w2\<lparr>id_count := id_count w2 + 1\<rparr>;
             w4 = set_tree a (Some (this_ptr w3)) w3
         in (OK, w4)))"

definition AssignRoot :: "nat \<Rightarrow> world \<Rightarrow> Status \<times> world" where
  "AssignRoot a w =
     (if tree_state w \<noteq> kDeTStateBuilding then
        (RETURN_STATUS_UNEXPECTED
           (''Invalid tree state for assigning a root node. Current state: ''
              @ to_string (TreeState_int (tree_state w))
              @ '' Expected state: '' @ to_string (TreeState_int kDeTStateBuilding)), w)
      else
        (case (if operator_id (ops w a) = kInvalidOperatorId then AssociateNode a w else (OK, w)) of
           (Error c m, w1) \<Rightarrow> (Error c m, w1)
         | (OK, w1) \<Rightarrow> (OK, w1\<lparr>root := Some a\<rparr>)))"

subsection \<open>Printing\<close>

text \<open>
  \<^verbatim>\<open>PrintNode\<close> writes one operator and descends to its children. The text it writes
  is the operators' own and has no effect on the tree, so only whether the walk
  returns is kept: it dereferences \<^verbatim>\<open>dataset_op\<close> without a null check, and its
  recursion ends only when the children below the operator do. \<open>None\<close> stands for
  a run that does not return: a null pointer is dereferenced, or the calls nest
  deeper than the bound \<open>d\<close>.
\<close>

fun PrintNode :: "nat \<Rightarrow> (nat \<Rightarrow> DatasetOp) \<Rightarrow> nat option \<Rightarrow> unit option"
  and PrintNode_children :: "nat \<Rightarrow> (nat \<Rightarrow> DatasetOp) \<Rightarrow> nat option list \<Rightarrow> unit option"
where
  "PrintNode d h None = None"
| "PrintNode 0 h (Some a) = None"
| "PrintNode (Suc d) h (Some a) = PrintNode_children d h (child (h a))"
| "PrintNode_children d h [] = Some ()"
| "PrintNode_children d h (c # cs) =
     (case PrintNode d h c of None \<Rightarrow> None | Some u \<Rightarrow> PrintNode_children d h cs)"

text \<open>\<^verbatim>\<open>Print(out, op)\<close>: the summary, then the details, from \<^verbatim>\<open>op\<close> or from the root.\<close>

definition Print :: "nat \<Rightarrow> world \<Rightarrow> nat option \<Rightarrow> unit option" where
  "Print d w p =
     (case PrintNode d (ops w) (if p = None then root w else p) of
        None \<Rightarrow> None
      | Some u \<Rightarrow> PrintNode d (ops w) (if p = None then root w else p))"

subsection \<open>The postorder iterator\<close>

text \<open>
  \<^verbatim>\<open>PostOrderTraverse\<close> appends to the iterator's vector \<^verbatim>\<open>nodes_\<close>, passed and
  returned here. It returns at once on a null pointer; on an operator it first
  runs the loop over \<^verbatim>\<open>child_\<close>. \<open>None\<close> again stands for calls nested deeper
  than \<open>d\<close> (the children never end below the node).
\<close>

fun PostOrderTraverse ::
    "nat \<Rightarrow> (nat \<Rightarrow> DatasetOp) \<Rightarrow> nat option \<Rightarrow> nat option list \<Rightarrow> nat option list option"
  and PostOrderTraverse_children ::
    "nat \<Rightarrow> (nat \<Rightarrow> DatasetOp) \<Rightarrow> nat option list \<Rightarrow> nat option list \<Rightarrow> nat option list option"
where
  "PostOrderTraverse d h None nodes = Some nodes"
| "PostOrderTraverse 0 h (Some a) nodes = None"
| "PostOrderTraverse (Suc d) h (Some a) nodes =
     (case PostOrderTraverse_children d h (child (h a)) nodes of
        None \<Rightarrow> None
      | Some nodes1 \<Rightarrow> Some (nodes1 @ [Some a]))"
| "PostOrderTraverse_children d h [] nodes = Some nodes"
| "PostOrderTraverse_children d h (c # cs) nodes =
     (case PostOrderTraverse d h c nodes of
        None \<Rightarrow> None
      | Some nodes1 \<Rightarrow> PostOrderTraverse_children d h cs nodes1)"

text \<open>The constructor \<^verbatim>\<open>Iterator(root)\<close>: the traversal, then the null end marker.\<close>

definition Iterator :: "nat \<Rightarrow> (nat \<Rightarrow> DatasetOp) \<Rightarrow> nat option \<Rightarrow> nat option list option" where
  "Iterator d h p =
     (case PostOrderTraverse d h p [] of
        None \<Rightarrow> None
      | Some nodes \<Rightarrow> Some (nodes @ [None]))"

text \<open>
  Modelled from the spec: \<^verbatim>\<open>begin()\<close>, \<^verbatim>\<open>end()\<close> and the iterator's operators are
  declared in \<^verbatim>\<open>execution_tree.h\<close>, outside the file embedded here. The spec has
  "a postorder iterator over the tree rooted at a given node (default: tree root)
  ... producing a sequence of node references terminated by a sentinel end
  marker": \<open>begin\<close> builds the iterator from the given node, or from the root when
  that is null, and a loop from \<open>begin\<close> to \<open>end\<close> stops at the first null of the
  sequence.
\<close>

definition begin_itr :: "nat \<Rightarrow> world \<Rightarrow> nat option \<Rightarrow> nat option list option" where
  "begin_itr d w p = Iterator d (ops w) (if p = None then root w else p)"

subsection \<open>Collaborators\<close>

text \<open>
  What the tree calls and this file does not define: the removal pass, the two
  prepare hooks of an operator, the profiling manager and the task group. A pass
  and a hook receive the tree and may change it; each returns a \<^verbatim>\<open>Status\<close>. The
  pass also receives and returns the flag \<^verbatim>\<open>modified\<close>.
\<close>

record collaborators =
  RemovalPass_Run :: "world \<Rightarrow> bool \<Rightarrow> Status \<times> world \<times> bool"
  PrepareNodePreAction :: "nat \<Rightarrow> world \<Rightarrow> Status \<times> world"
  PrepareNodePostAction :: "nat \<Rightarrow> world \<Rightarrow> Status \<times> world"
  IsProfilingEnable :: bool
  Initialize :: Status
  tg_accepts :: "(string \<times> callable) list \<Rightarrow> string \<Rightarrow> callable \<Rightarrow> Status"

text \<open>
  Modelled from the spec: \<^verbatim>\<open>TaskGroup::CreateAsyncTask\<close> is declared in
  \<^verbatim>\<open>task_manager.h\<close>, outside the file embedded here. The spec has
  "CreateAsyncTask(label, callable) -> Result" on "a cooperative group of
  concurrently running named tasks": a request the group accepts adds the task,
  a request it rejects returns the group's error and adds nothing.
\<close>

definition CreateAsyncTask :: "collaborators \<Rightarrow> string \<Rightarrow> callable \<Rightarrow> world \<Rightarrow> Status \<times> world" where
  "CreateAsyncTask C name f w =
     (case tg_accepts C (tg w) name f of
        OK \<Rightarrow> (OK, w\<lparr>tg := tg w @ [(name, f)]\<rparr>)
      | Error c m \<Rightarrow> (Error c m, w))"

subsection \<open>Launch\<close>

text \<open>
  The loop of \<^verbatim>\<open>Launch\<close> over the iterator's sequence \<open>itr\<close>, from the element
  the iterator stands at: the loop ends at the null end marker, and a sequence
  without one would be read past its end (\<open>None\<close>). Every \<^verbatim>\<open>RETURN_IF_NOT_OK\<close> is
  a case on the status: an error is returned with the state reached so far.
\<close>

fun Launch_loop :: "collaborators \<Rightarrow> nat option list \<Rightarrow> world \<Rightarrow> (Status \<times> world) option" where
  "Launch_loop C [] w = None"
| "Launch_loop C (None # itr) w = Some (OK, w)"
| "Launch_loop C (Some a # itr) w =
     (let w1 = w\<lparr>ops := (ops w)(a := (ops w a)\<lparr>state := kDeOpRunning\<rparr>)\<rparr> in
      if \<not> inlined (ops w1 a) then
        (case CreateAsyncTask C (''Op launched, OperatorId:'' @ to_string (sint (operator_id (ops w1 a))))
                (OpRef a) w1 of
           (Error c m, w2) \<Rightarrow> Some (Error c m, w2)
         | (OK, w2) \<Rightarrow> Launch_loop C itr w2)
      else Launch_loop C itr w1)"

text \<open>
  \<^verbatim>\<open>Launch\<close>. After the state check, \<^verbatim>\<open>ss << *this\<close> prints the tree from its root
  (the stream operator of the tree calls \<^verbatim>\<open>Print\<close> with no operator given); the
  text only goes to the debug log. The profiling manager is asked next, then the
  loop runs over a fresh iterator from the root.
\<close>

definition Launch :: "collaborators \<Rightarrow> nat \<Rightarrow> world \<Rightarrow> (Status \<times> world) option" where
  "Launch C d w =
     (if tree_state w \<noteq> kDeTStateReady then
        Some (RETURN_STATUS_UNEXPECTED
           (''Invalid tree state for launching tree. Current state: ''
              @ to_string (TreeState_int (tree_state w))
              @ '' Expected state: '' @ to_string (TreeState_int kDeTStateReady)), w)
      else
        (case Print d w None of
           None \<Rightarrow> None
         | Some u \<Rightarrow>
            (case (if IsProfilingEnable C then
                     (case Initialize C of
                        Error c m \<Rightarrow> (Error c m, w)
                      | OK \<Rightarrow> CreateAsyncTask C ''Monitor Thread launched'' MonitorRef w)
                   else (OK, w)) of
               (Error c m, w1) \<Rightarrow> Some (Error c m, w1)
             | (OK, w1) \<Rightarrow>
                (case begin_itr d w1 None of
                   None \<Rightarrow> None
                 | Some itr \<Rightarrow>
                    (case Launch_loop C itr w1 of
                       None \<Rightarrow> None
                     | Some (Error c m, w2) \<Rightarrow> Some (Error c m, w2)
                     | Some (OK, w2) \<Rightarrow> Some (OK, w2\<lparr>tree_state := kDeTStateExecuting\<rparr>))))))"

subsection \<open>Prepare\<close>

text \<open>
  Modelled from the spec: \<^verbatim>\<open>BitSet\<close> and \<^verbatim>\<open>BitClear\<close> are helpers declared outside
  this file. The spec has "merge the node's declared prepare-flag bitmask into the
  tree's prepareFlags via bitwise OR" and "clear the node's prepare-flag bits from
  prepareFlags via bitwise AND-NOT".
\<close>

definition BitSet :: "32 word \<Rightarrow> 32 word \<Rightarrow> 32 word" where
  "BitSet bits flag = bits OR flag"

definition BitClear :: "32 word \<Rightarrow> 32 word \<Rightarrow> 32 word" where
  "BitClear bits flag = bits AND NOT flag"

text \<open>
  \<^verbatim>\<open>PrepareNode\<close> dereferences \<^verbatim>\<open>dataset_op\<close> at once (\<open>None\<close> on a null pointer)
  and recurs into the children; \<open>d\<close> bounds the nesting of the calls. The loop
  runs over the children the operator has when the loop starts.
\<close>

fun PrepareNode :: "collaborators \<Rightarrow> nat \<Rightarrow> nat option \<Rightarrow> world \<Rightarrow> (Status \<times> world) option"
  and PrepareNode_children ::
    "collaborators \<Rightarrow> nat \<Rightarrow> nat option list \<Rightarrow> world \<Rightarrow> (Status \<times> world) option"
where
  "PrepareNode C d None w = None"
| "PrepareNode C 0 (Some a) w = None"
| "PrepareNode C (Suc d) (Some a) w =
     (case PrepareNodePreAction C a w of
        (Error c m, w1) \<Rightarrow> Some (Error c m, w1)
      | (OK, w1) \<Rightarrow>
         (let op_prep_flags = PrepareFlags (ops w1 a);
              w2 = w1\<lparr>prepare_flags := BitSet (prepare_flags w1) op_prep_flags\<rparr>
          in case PrepareNode_children C d (child (ops w2 a)) w2 of
               None \<Rightarrow> None
             | Some (Error c m, w3) \<Rightarrow> Some (Error c m, w3)
             | Some (OK, w3) \<Rightarrow>
                (case PrepareNodePostAction C a w3 of
                   (Error c m, w4) \<Rightarrow> Some (Error c m, w4)
                 | (OK, w4) \<Rightarrow>
                    Some (OK, w4\<lparr>prepare_flags := BitClear (prepare_flags w4) op_prep_flags\<rparr>))))"
| "PrepareNode_children C d [] w = Some (OK, w)"
| "PrepareNode_children C d (i # rest) w =
     (case PrepareNode C d i w of
        None \<Rightarrow> None
      | Some (Error c m, w1) \<Rightarrow> Some (Error c m, w1)
      | Some (OK, w1) \<Rightarrow> PrepareNode_children C d rest w1)"

text \<open>The loop of \<^verbatim>\<open>PrepareTreePreAction\<close> over the vector \<^verbatim>\<open>pre_actions\<close>.\<close>

fun apply_passes ::
    "(world \<Rightarrow> bool \<Rightarrow> Status \<times> world \<times> bool) list \<Rightarrow> world \<Rightarrow> bool \<Rightarrow> Status \<times> world" where
  "apply_passes [] w modified = (OK, w)"
| "apply_passes (pass # rest) w modified =
     (case pass w modified of
        (Error c m, w1, modified1) \<Rightarrow> (Error c m, w1)
      | (OK, w1, modified1) \<Rightarrow> apply_passes rest w1 modified1)"

definition PrepareTreePreAction :: "collaborators \<Rightarrow> world \<Rightarrow> Status \<times> world" where
  "PrepareTreePreAction C w = apply_passes [RemovalPass_Run C] w False"

definition PrepareTreePostAction :: "world \<Rightarrow> Status \<times> world" where
  "PrepareTreePostAction w = (OK, w\<lparr>tree_state := kDeTStatePrepare\<rparr>)"

definition Optimize :: "world \<Rightarrow> Status \<times> world" where
  "Optimize w = (OK, w)"

definition PrepareDeprecated :: "collaborators \<Rightarrow> nat \<Rightarrow> world \<Rightarrow> (Status \<times> world) option" where
  "PrepareDeprecated C d w =
     (if tree_state w \<noteq> kDeTStatePrepare then
        Some (RETURN_STATUS_UNEXPECTED
           (''Invalid tree state for preparing the tree. Current state: ''
              @ to_string (TreeState_int (tree_state w))
              @ '' Expected state: '' @ to_string (TreeState_int kDeTStatePrepare)), w)
      else
        (case PrepareNode C d (root w) w of
           None \<Rightarrow> None
         | Some (Error c m, w1) \<Rightarrow> Some (Error c m, w1)
         | Some (OK, w1) \<Rightarrow> Some (OK, w1\<lparr>tree_state := kDeTStateReady\<rparr>)))"

definition Prepare :: "collaborators \<Rightarrow> nat \<Rightarrow> world \<Rightarrow> (Status \<times> world) option" where
  "Prepare C d w =
     (case PrepareTreePreAction C w of
        (Error c m, w1) \<Rightarrow> Some (Error c m, w1)
      | (OK, w1) \<Rightarrow>
         (case Optimize w1 of
            (Error c m, w2) \<Rightarrow> Some (Error c m, w2)
          | (OK, w2) \<Rightarrow>
             (case PrepareTreePostAction w2 of
                (Error c m, w3) \<Rightarrow> Some (Error c m, w3)
              | (OK, w3) \<Rightarrow>
                 (case PrepareDeprecated C d w3 of
                    None \<Rightarrow> None
                  | Some (Error c m, w4) \<Rightarrow> Some (Error c m, w4)
                  | Some (OK, w4) \<Rightarrow> Some (OK, w4)))))"

subsection \<open>Sequences of public operations\<close>

text \<open>
  A caller of the tree: one public member function per step. \<open>run\<close> lists the
  states after each call, up to a call that does not return. A call that returns
  an error leaves the state it reached, and the caller may go on.
\<close>

datatype operation =
    CallAssociateNode nat
  | CallAssignRoot nat
  | CallPrepare
  | CallPrepareTreePreAction
  | CallOptimize
  | CallPrepareTreePostAction
  | CallPrepareDeprecated
  | CallLaunch

fun call :: "collaborators \<Rightarrow> nat \<Rightarrow> operation \<Rightarrow> world \<Rightarrow> (Status \<times> world) option" where
  "call C d (CallAssociateNode a) w = Some (AssociateNode a w)"
| "call C d (CallAssignRoot a) w = Some (AssignRoot a w)"
| "call C d CallPrepare w = Prepare C d w"
| "call C d CallPrepareTreePreAction w = Some (PrepareTreePreAction C w)"
| "call C d CallOptimize w = Some (Optimize w)"
| "call C d CallPrepareTreePostAction w = Some (PrepareTreePostAction w)"
| "call C d CallPrepareDeprecated w = PrepareDeprecated C d w"
| "call C d CallLaunch w = Launch C d w"

fun run :: "collaborators \<Rightarrow> nat \<Rightarrow> operation list \<Rightarrow> world \<Rightarrow> world list" where
  "run C d [] w = []"
| "run C d (x # xs) w =
     (case call C d x w of
        None \<Rightarrow> []
      | Some (s, w1) \<Rightarrow> w1 # run C d xs w1)"

text \<open>
  \<open>AssociateNodes\<close> calls \<^verbatim>\<open>AssociateNode\<close> on each operator of a list in turn and
  stops at the first error, as a builder under \<^verbatim>\<open>RETURN_IF_NOT_OK\<close> does.
\<close>

fun AssociateNodes :: "nat list \<Rightarrow> world \<Rightarrow> Status \<times> world" where
  "AssociateNodes [] w = (OK, w)"
| "AssociateNodes (a # as) w =
     (case AssociateNode a w of
        (Error c m, w1) \<Rightarrow> (Error c m, w1)
      | (OK, w1) \<Rightarrow> AssociateNodes as w1)"

text \<open>
  The operators of a sequence of calls, each once, in the order of their first
  call.
\<close>

fun first_calls :: "nat list \<Rightarrow> nat list" where
  "first_calls [] = []"
| "first_calls (a # as) = a # first_calls (removeAll a as)"

subsection \<open>Trees in the store\<close>

text \<open>
  The shape of what hangs below a pointer: nothing below a null pointer, and
  below an operator the shapes of its children, in stored order. \<open>represents\<close>
  says that the store has this shape below the pointer \<open>p\<close>; a store with a cycle
  below \<open>p\<close> has no shape. \<open>nonnull\<close> says that no pointer of the shape is null,
  \<open>height\<close> is the number of operators on its longest path.
\<close>

datatype shape = NullPtr | OpNode nat "shape list"

fun represents :: "(nat \<Rightarrow> DatasetOp) \<Rightarrow> nat option \<Rightarrow> shape \<Rightarrow> bool"
  and represents_children :: "(nat \<Rightarrow> DatasetOp) \<Rightarrow> nat option list \<Rightarrow> shape list \<Rightarrow> bool"
where
  "represents h None NullPtr = True"
| "represents h (Some a) (OpNode b ts) = (a = b \<and> represents_children h (child (h a)) ts)"
| "represents h None (OpNode b ts) = False"
| "represents h (Some a) NullPtr = False"
| "represents_children h [] [] = True"
| "represents_children h (c # cs) (t # ts) = (represents h c t \<and> represents_children h cs ts)"
| "represents_children h [] (t # ts) = False"
| "represents_children h (c # cs) [] = False"

fun nonnull :: "shape \<Rightarrow> bool" where
  "nonnull NullPtr = False"
| "nonnull (OpNode a ts) = list_all nonnull ts"

fun height :: "shape \<Rightarrow> nat" where
  "height NullPtr = 0"
| "height (OpNode a ts) = Suc (foldr max (map height ts) 0)"

text \<open>
  The postorder of the spec: "recursively visits all children left-to-right before
  the node itself".
\<close>

fun spec_postorder :: "shape \<Rightarrow> nat list" where
  "spec_postorder NullPtr = []"
| "spec_postorder (OpNode a ts) = concat (map spec_postorder ts) @ [a]"

text \<open>The task \<^verbatim>\<open>Launch\<close> asks the task group for, for the operator at \<open>a\<close>.\<close>

definition op_task :: "(nat \<Rightarrow> DatasetOp) \<Rightarrow> nat \<Rightarrow> string \<times> callable" where
  "op_task h a = (''Op launched, OperatorId:'' @ to_string (sint (operator_id (h a))), OpRef a)"

text \<open>
  A collaborator keeps the tree state when no pass and no hook changes
  \<^verbatim>\<open>tree_state_\<close>.
\<close>

definition keeps_tree_state :: "collaborators \<Rightarrow> bool" where
  "keeps_tree_state C =
     ((\<forall>w b. tree_state (fst (snd (RemovalPass_Run C w b))) = tree_state w)
      \<and> (\<forall>a w. tree_state (snd (PrepareNodePreAction C a w)) = tree_state w)
      \<and> (\<forall>a w. tree_state (snd (PrepareNodePostAction C a w)) = tree_state w))"

text \<open>
  Along a run, \<open>prepares_early\<close> holds when \<^verbatim>\<open>Prepare\<close> and
  \<^verbatim>\<open>PrepareTreePostAction\<close> are only called while the tree is in state Init,
  Building or Prepare.
\<close>

fun prepares_early :: "collaborators \<Rightarrow> nat \<Rightarrow> operation list \<Rightarrow> world \<Rightarrow> bool" where
  "prepares_early C d [] w = True"
| "prepares_early C d (x # xs) w =
     ((if x = CallPrepare \<or> x = CallPrepareTreePostAction
       then TreeState_int (tree_state w) \<le> TreeState_int kDeTStatePrepare else True)
      \<and> (case call C d x w of
           None \<Rightarrow> True
         | Some (s, w1) \<Rightarrow> prepares_early C d xs w1))"

subsection \<open>Example inputs\<close>

text \<open>An operator as it is before any tree has seen it: no id, no tree, no child.\<close>

definition fresh_op :: DatasetOp where
  "fresh_op =
     \<lparr>operator_id = kInvalidOperatorId, tree = None, state = kDeOpOther 1, child = [],
      inlined = False, PrepareFlags = 0\<rparr>"

text \<open>
  The tree of the spec's example: the root R at address 1 with the children A
  (address 2) and B (address 3), and A with the child C (address 4).
\<close>

definition rabc_ops :: "nat \<Rightarrow> DatasetOp" where
  "rabc_ops =
     (\<lambda>a. fresh_op)
       (1 := fresh_op\<lparr>child := [Some 2, Some 3]\<rparr>,
        2 := fresh_op\<lparr>child := [Some 4]\<rparr>)"

definition rabc_shape :: shape where
  "rabc_shape = OpNode 1 [OpNode 2 [OpNode 4 []], OpNode 3 []]"

text \<open>
  A tree in state Building over the same operators, none of them in the tree yet,
  whose counter has reached the largest 32-bit signed value.
\<close>

definition full_world :: world where
  "full_world = (ExecutionTree rabc_ops 7)\<lparr>tree_state := kDeTStateBuilding, id_count := 2147483647\<rparr>"

text \<open>
  A tree of three levels: the root at address 1, its child at address 2, which
  is inlined, and that one's child at address 3. The ids are 0, 1 and 2.
\<close>

definition chain_ops :: "nat \<Rightarrow> DatasetOp" where
  "chain_ops =
     (\<lambda>a. fresh_op)
       (1 := fresh_op\<lparr>operator_id := 0, tree := Some 7, child := [Some 2]\<rparr>,
        2 := fresh_op\<lparr>operator_id := 1, tree := Some 7, child := [Some 3], inlined := True\<rparr>,
        3 := fresh_op\<lparr>operator_id := 2, tree := Some 7\<rparr>)"

definition chain_shape :: shape where
  "chain_shape = OpNode 1 [OpNode 2 [OpNode 3 []]]"

definition chain_world :: "TreeState \<Rightarrow> world" where
  "chain_world s =
     \<lparr>ops = chain_ops, this_ptr = 7, tree_state = s, id_count = 3, root = Some 1,
      prepare_flags = 0, tg = []\<rparr>"

text \<open>
  Collaborators that do nothing and never fail; and the same with a removal pass
  that fails, and with a task group that rejects every request.
\<close>

definition quiet :: collaborators where
  "quiet =
     \<lparr>RemovalPass_Run = (\<lambda>w modified. (OK, w, modified)),
      PrepareNodePreAction = (\<lambda>a w. (OK, w)),
      PrepareNodePostAction = (\<lambda>a w. (OK, w)),
      IsProfilingEnable = False,
      Initialize = OK,
      tg_accepts = (\<lambda>g name f. OK)\<rparr>"

definition failing_pass :: collaborators where
  "failing_pass = quiet\<lparr>RemovalPass_Run := (\<lambda>w modified. (Error (kOtherError 5) ''removal failed'', w, modified))\<rparr>"

definition rejecting_group :: collaborators where
  "rejecting_group = quiet\<lparr>tg_accepts := (\<lambda>g name f. Error (kOtherError 3) ''no thread'')\<rparr>"

text \<open>
  Two operators on one path that declare the same prepare flag, bit 0: X at
  address 1 and its child Y at address 2.
\<close>

definition xy_ops :: "nat \<Rightarrow> DatasetOp" where
  "xy_ops =
     (\<lambda>a. fresh_op)
       (1 := fresh_op\<lparr>child := [Some 2], PrepareFlags := 1\<rparr>,
        2 := fresh_op\<lparr>PrepareFlags := 1\<rparr>)"

definition xy_world :: world where
  "xy_world =
     \<lparr>ops = xy_ops, this_ptr = 7, tree_state = kDeTStatePrepare, id_count = 2, root = Some 1,
      prepare_flags = 0, tg = []\<rparr>"

text \<open>
  Collaborators that do nothing, but for the post-action hook of X: it fails when
  it finds bit 0 of \<^verbatim>\<open>prepare_flags_\<close> clear.
\<close>

definition probe :: collaborators where
  "probe = quiet\<lparr>PrepareNodePostAction :=
     (\<lambda>a w. if a = 1 \<and> prepare_flags w AND 1 = 0
            then (Error (kOtherError 9) ''bit 0 is clear at X'', w) else (OK, w))\<rparr>"

section \<open>Properties\<close>

subsection \<open>Auxiliary facts\<close>

lemma to_string_digits [simp]:
  "to_string 0 = ''0''" "to_string 1 = ''1''" "to_string 2 = ''2''" "to_string 3 = ''3''"
  "to_string 4 = ''4''"
  by (simp_all add: to_string_def to_string_nat.simps digit_char_def)

lemma AssociateNode_new:
  assumes "tree (ops w a) \<noteq> Some (this_ptr w)"
      and "tree_state w = kDeTStateInit \<or> tree_state w = kDeTStateBuilding"
  shows "AssociateNode a w =
     (OK, w\<lparr>ops := (ops w)(a := (ops w a)\<lparr>operator_id := id_count w, tree := Some (this_ptr w)\<rparr>),
            tree_state := kDeTStateBuilding, id_count := id_count w + 1\<rparr>)"
  using assms by (auto simp: AssociateNode_def set_id_def set_tree_def Let_def)

lemma AssociateNode_frame:
  "this_ptr (snd (AssociateNode a w)) = this_ptr w"
  "b \<noteq> a \<Longrightarrow> ops (snd (AssociateNode a w)) b = ops w b"
  by (simp_all add: AssociateNode_def set_id_def set_tree_def Let_def)

lemma AssociateNodes_frame:
  "b \<notin> set as \<Longrightarrow> ops (snd (AssociateNodes as w)) b = ops w b"
proof (induction as arbitrary: w)
  case Nil
  then show ?case by simp
next
  case (Cons a as)
  obtain s w1 where r: "AssociateNode a w = (s, w1)" by (cases "AssociateNode a w")
  have "ops w1 b = ops w b" using AssociateNode_frame(2) [of b a w] Cons.prems r by simp
  moreover have "ops (snd (AssociateNodes as w1)) b = ops w1 b" using Cons by simp
  ultimately show ?case using r by (cases s) simp_all
qed

lemma AssociateNodes_this: "this_ptr (snd (AssociateNodes as w)) = this_ptr w"
proof (induction as arbitrary: w)
  case Nil
  then show ?case by simp
next
  case (Cons a as)
  obtain s w1 where r: "AssociateNode a w = (s, w1)" by (cases "AssociateNode a w")
  have "this_ptr w1 = this_ptr w" using AssociateNode_frame(1) [of a w] r by simp
  then show ?case using r Cons.IH [of w1] by (cases s) simp_all
qed

text \<open>Operators that are all new to the tree, each called once.\<close>

lemma AssociateNodes_new:
  assumes "tree_state w = kDeTStateInit \<or> tree_state w = kDeTStateBuilding"
      and "distinct as"
      and "\<forall>a\<in>set as. tree (ops w a) \<noteq> Some (this_ptr w)"
  shows "\<exists>w'. AssociateNodes as w = (OK, w')
           \<and> map (\<lambda>a. operator_id (ops w' a)) as = map (\<lambda>i. id_count w + of_nat i) [0..<length as]
           \<and> id_count w' = id_count w + of_nat (length as)
           \<and> (as \<noteq> [] \<longrightarrow> tree_state w' = kDeTStateBuilding)
           \<and> (\<forall>a\<in>set as. tree (ops w' a) = Some (this_ptr w'))"
  using assms
proof (induction as arbitrary: w)
  case Nil
  then show ?case by simp
next
  case (Cons a as)
  define w1 where "w1 = w\<lparr>ops := (ops w)(a := (ops w a)\<lparr>operator_id := id_count w, tree := Some (this_ptr w)\<rparr>),
            tree_state := kDeTStateBuilding, id_count := id_count w + 1\<rparr>"
  have step: "AssociateNode a w = (OK, w1)"
    unfolding w1_def using Cons.prems by (intro AssociateNode_new) simp_all
  have a: "a \<notin> set as" and d: "distinct as" using Cons.prems(2) by simp_all
  have "\<forall>b\<in>set as. tree (ops w1 b) \<noteq> Some (this_ptr w1)"
    using Cons.prems(3) a by (auto simp: w1_def)
  moreover have "tree_state w1 = kDeTStateInit \<or> tree_state w1 = kDeTStateBuilding"
    by (simp add: w1_def)
  ultimately obtain w' where w': "AssociateNodes as w1 = (OK, w')"
      "map (\<lambda>a. operator_id (ops w' a)) as = map (\<lambda>i. id_count w1 + of_nat i) [0..<length as]"
      "id_count w' = id_count w1 + of_nat (length as)"
      "as \<noteq> [] \<longrightarrow> tree_state w' = kDeTStateBuilding"
      "\<forall>a\<in>set as. tree (ops w' a) = Some (this_ptr w')"
    using Cons.IH [OF _ d, of w1] by blast
  have keep: "ops w' a = ops w1 a"
    using AssociateNodes_frame [OF a, of w1] w'(1) by simp
  have this': "this_ptr w' = this_ptr w1"
    using AssociateNodes_this [of as w1] w'(1) by simp
  have st: "tree_state w' = kDeTStateBuilding"
    using w'(1,4) by (cases as) (auto simp: w1_def)
  have ids: "map (\<lambda>i. id_count w + of_nat i) [0..<length (a # as)] =
      id_count w # map (\<lambda>i. id_count w1 + of_nat i) [0..<length as]"
    by (simp add: w1_def upt_rec [of 0 "Suc (length as)"] map_Suc_upt [symmetric]
        add.assoc del: upt_Suc)
  show ?case
    using step w' keep st ids this' by (simp add: w1_def add.assoc)
qed

text \<open>Below the top of the 32 bits, the signed value of the counter goes up by one.\<close>

lemma sint_counter:
  fixes c :: "32 word"
  assumes "sint c + int i < 2 ^ 31"
  shows "sint (c + of_nat i) = sint c + int i"
proof -
  have lo: "- (2 ^ 31) \<le> sint c" using sint_ge [of c] by simp
  have "c + of_nat i = word_of_int (sint c + int i)" by simp
  then have "sint (c + of_nat i) = signed_take_bit 31 (sint c + int i)"
    by (simp only: signed_of_int) simp
  also have "\<dots> = sint c + int i"
    by (rule signed_take_bit_int_eq_self) (use lo assms in simp_all)
  finally show ?thesis .
qed

lemma set_first_calls [simp]: "set (first_calls as) = set as"
  by (induction as rule: first_calls.induct) auto

lemma distinct_first_calls [simp]: "distinct (first_calls as)"
  by (induction as rule: first_calls.induct) auto

text \<open>A call on an operator that is in the tree already can be left out.\<close>

lemma AssociateNodes_repeat:
  "tree (ops w a) = Some (this_ptr w) \<Longrightarrow> AssociateNodes as w = AssociateNodes (removeAll a as) w"
proof (induction as arbitrary: w)
  case Nil
  then show ?case by simp
next
  case (Cons b as)
  show ?case
  proof (cases "b = a")
    case True
    then show ?thesis using Cons by (simp add: AssociateNode_def)
  next
    case False
    obtain s w1 where r: "AssociateNode b w = (s, w1)" by (cases "AssociateNode b w")
    have "tree (ops w1 a) = Some (this_ptr w1)"
      using AssociateNode_frame(1) [of b w] AssociateNode_frame(2) [of a b w] False r Cons.prems
      by simp
    then have "AssociateNodes as w1 = AssociateNodes (removeAll a as) w1" by (rule Cons.IH)
    then show ?thesis using False r by (cases s) simp_all
  qed
qed

lemma AssociateNodes_first_calls:
  assumes "tree_state w = kDeTStateInit \<or> tree_state w = kDeTStateBuilding"
      and "\<forall>a\<in>set as. tree (ops w a) \<noteq> Some (this_ptr w)"
  shows "AssociateNodes as w = AssociateNodes (first_calls as) w"
  using assms
proof (induction as arbitrary: w rule: first_calls.induct)
  case 1
  then show ?case by simp
next
  case (2 a as)
  define w1 where "w1 = w\<lparr>ops := (ops w)(a := (ops w a)\<lparr>operator_id := id_count w, tree := Some (this_ptr w)\<rparr>),
          tree_state := kDeTStateBuilding, id_count := id_count w + 1\<rparr>"
  have step: "AssociateNode a w = (OK, w1)"
    unfolding w1_def using "2.prems" by (intro AssociateNode_new) simp_all
  have "AssociateNodes as w1 = AssociateNodes (removeAll a as) w1"
    by (rule AssociateNodes_repeat) (simp add: w1_def)
  also have "\<dots> = AssociateNodes (first_calls (removeAll a as)) w1"
    using "2.prems"(2) by (intro "2.IH") (auto simp: w1_def)
  finally show ?case using step by simp
qed

subsection \<open>Association and root assignment\<close>

text \<open>
  Claim C1, as amended. In a tree whose state is Init or Building, every call of a
  sequence of \<^verbatim>\<open>AssociateNode\<close> calls on operators that are not yet in the tree
  succeeds. As long as the counter stays below 2^31 (it is a 32-bit signed
  integer), each operator gets the value of the counter at its first call, and
  the counter goes up by one per association: in the order of their first calls
  the operators hold the ids \<open>c\<close>, \<open>c + 1\<close>, ... from the counter's value \<open>c\<close>
  before the calls (0, 1, 2, ... in a tree from the constructor, whose counter is
  0), strictly increasing and without repeats. After the first call the tree is in
  state Building.
\<close>

theorem AssociateNodes_assigns_ids:
  assumes "tree_state w = kDeTStateInit \<or> tree_state w = kDeTStateBuilding"
      and "\<forall>a\<in>set as. tree (ops w a) \<noteq> Some (this_ptr w)"
      and "sint (id_count w) + int (length (first_calls as)) < 2 ^ 31"
  shows "\<exists>w'. AssociateNodes as w = (OK, w')
           \<and> map (\<lambda>a. sint (operator_id (ops w' a))) (first_calls as)
               = map (\<lambda>i. sint (id_count w) + int i) [0..<length (first_calls as)]
           \<and> sint (id_count w') = sint (id_count w) + int (length (first_calls as))
           \<and> (as \<noteq> [] \<longrightarrow> tree_state w' = kDeTStateBuilding)
           \<and> (\<forall>a\<in>set as. tree (ops w' a) = Some (this_ptr w'))"
proof -
  let ?n = "length (first_calls as)"
  have fresh: "\<forall>a\<in>set (first_calls as). tree (ops w a) \<noteq> Some (this_ptr w)"
    using assms(2) by simp
  from AssociateNodes_new [OF assms(1) distinct_first_calls fresh]
  obtain w' where w': "AssociateNodes as w = (OK, w')"
      "map (\<lambda>a. operator_id (ops w' a)) (first_calls as) = map (\<lambda>i. id_count w + of_nat i) [0..<?n]"
      "id_count w' = id_count w + of_nat ?n"
      "first_calls as \<noteq> [] \<longrightarrow> tree_state w' = kDeTStateBuilding"
      "\<forall>a\<in>set (first_calls as). tree (ops w' a) = Some (this_ptr w')"
    unfolding AssociateNodes_first_calls [OF assms(1,2), symmetric] by blast
  have "map (\<lambda>a. sint (operator_id (ops w' a))) (first_calls as) =
      map sint (map (\<lambda>a. operator_id (ops w' a)) (first_calls as))"
    by simp
  also have "\<dots> = map (\<lambda>i. sint (id_count w + of_nat i)) [0..<?n]"
    unfolding w'(2) by simp
  also have "\<dots> = map (\<lambda>i. sint (id_count w) + int i) [0..<?n]"
  proof (rule map_cong [OF refl])
    fix i
    assume "i \<in> set [0..<?n]"
    then have "sint (id_count w) + int i < 2 ^ 31" using assms(3) by simp
    then show "sint (id_count w + of_nat i) = sint (id_count w) + int i"
      by (rule sint_counter)
  qed
  finally have ids: "map (\<lambda>a. sint (operator_id (ops w' a))) (first_calls as) =
      map (\<lambda>i. sint (id_count w) + int i) [0..<?n]" .
  have cnt: "sint (id_count w') = sint (id_count w) + int ?n"
    unfolding w'(3) using assms(3) by (rule sint_counter)
  have st: "as \<noteq> [] \<longrightarrow> tree_state w' = kDeTStateBuilding"
    using w'(4) by (cases as) auto
  show ?thesis
    using w'(1,5) ids cnt st by auto
qed

theorem AssociateNodes_assigns_ids_witness:
  "fst (AssociateNodes [4, 2, 4, 3, 2, 1] (ExecutionTree rabc_ops 7)) = OK
   \<and> map (\<lambda>a. sint (operator_id (ops (snd (AssociateNodes [4, 2, 4, 3, 2, 1] (ExecutionTree rabc_ops 7))) a)))
       [4, 2, 3, 1] = [0, 1, 2, 3]
   \<and> tree_state (snd (AssociateNodes [4, 2, 4, 3, 2, 1] (ExecutionTree rabc_ops 7))) = kDeTStateBuilding
   \<and> sint (id_count (snd (AssociateNodes [4, 2, 4, 3, 2, 1] (ExecutionTree rabc_ops 7)))) = 4"
  using AssociateNodes_assigns_ids [of "ExecutionTree rabc_ops 7" "[4, 2, 4, 3, 2, 1]"]
  by (auto simp: ExecutionTree_def rabc_ops_def fresh_op_def upt_rec)

text \<open>
  Claim C1 as stated fails at the top of the counter: in a tree in state Building
  whose counter is 2147483647, two calls on new operators succeed and assign the
  ids 2147483647 and -2147483648, which are not increasing.
\<close>

theorem AssociateNodes_wraps_counterexample:
  "tree_state full_world = kDeTStateBuilding
   \<and> fst (AssociateNodes [1, 2] full_world) = OK
   \<and> map (\<lambda>a. sint (operator_id (ops (snd (AssociateNodes [1, 2] full_world)) a))) [1, 2]
       = [2147483647, - 2147483648]"
  by (simp add: full_world_def ExecutionTree_def rabc_ops_def fresh_op_def AssociateNode_def
      set_id_def set_tree_def)

text \<open>
  Claim C9. \<^verbatim>\<open>AssociateNode\<close> on an operator whose tree pointer is this tree
  returns OK and changes nothing: not the operator's id or tree pointer, not the
  state of the tree, not the counter. It does so in every state of the tree.
\<close>

theorem AssociateNode_idempotent:
  assumes "tree (ops w a) = Some (this_ptr w)"
  shows "AssociateNode a w = (OK, w)"
  using assms by (simp add: AssociateNode_def)

theorem AssociateNode_idempotent_witness:
  "tree (ops (snd (AssociateNode 1 (ExecutionTree rabc_ops 7))) 1)
     = Some (this_ptr (snd (AssociateNode 1 (ExecutionTree rabc_ops 7))))
   \<and> AssociateNode 1 (snd (AssociateNode 1 (ExecutionTree rabc_ops 7)))
     = (OK, snd (AssociateNode 1 (ExecutionTree rabc_ops 7)))"
  using AssociateNode_idempotent [of "snd (AssociateNode 1 (ExecutionTree rabc_ops 7))" 1]
  by (simp add: AssociateNode_def ExecutionTree_def rabc_ops_def fresh_op_def set_id_def set_tree_def)

text \<open>
  Claim C7. In every state but Building (Init, Prepare, Ready, Executing),
  \<^verbatim>\<open>AssignRoot\<close> returns the error of \<^verbatim>\<open>RETURN_STATUS_UNEXPECTED\<close>, whose message
  gives the state found and the state expected (Building, 1), and leaves the
  whole program state as it was: the root, the operator's id and its tree pointer
  with it.
\<close>

theorem AssignRoot_invalid_state:
  assumes "tree_state w \<noteq> kDeTStateBuilding"
  shows "AssignRoot a w =
    (Error kUnexpectedError
       (''Invalid tree state for assigning a root node. Current state: ''
          @ to_string (TreeState_int (tree_state w)) @ '' Expected state: 1''), w)"
  using assms by (simp add: AssignRoot_def RETURN_STATUS_UNEXPECTED_def)

theorem AssignRoot_invalid_state_witness:
  "AssignRoot 1 (ExecutionTree rabc_ops 7) =
     (Error kUnexpectedError
        ''Invalid tree state for assigning a root node. Current state: 0 Expected state: 1'',
      ExecutionTree rabc_ops 7)"
  using AssignRoot_invalid_state [of "ExecutionTree rabc_ops 7" 1]
  by (simp add: ExecutionTree_def)

subsection \<open>The postorder iterator\<close>

lemma height_child: "t \<in> set ts \<Longrightarrow> height t \<le> foldr max (map height ts) 0"
  by (induction ts) auto

lemma PostOrderTraverse_children_shape:
  assumes "\<And>t p nodes. t \<in> set ts \<Longrightarrow> represents h p t \<Longrightarrow>
             PostOrderTraverse d h p nodes = Some (nodes @ map Some (spec_postorder t))"
      and "represents_children h cs ts"
  shows "PostOrderTraverse_children d h cs nodes =
           Some (nodes @ map Some (concat (map spec_postorder ts)))"
  using assms
proof (induction ts arbitrary: cs nodes)
  case Nil
  then show ?case by (cases cs) simp_all
next
  case (Cons t ts)
  then obtain c cs' where cs: "cs = c # cs'" by (cases cs) auto
  with Cons.prems have r: "represents h c t" "represents_children h cs' ts" by simp_all
  have "PostOrderTraverse d h c nodes = Some (nodes @ map Some (spec_postorder t))"
    using Cons.prems(1) r(1) by simp
  moreover have "PostOrderTraverse_children d h cs' (nodes @ map Some (spec_postorder t)) =
      Some ((nodes @ map Some (spec_postorder t)) @ map Some (concat (map spec_postorder ts)))"
    using Cons.IH [OF _ r(2)] Cons.prems(1) by simp
  ultimately show ?case by (simp add: cs)
qed

lemma PostOrderTraverse_shape:
  "represents h p t \<Longrightarrow> height t \<le> d \<Longrightarrow>
     PostOrderTraverse d h p nodes = Some (nodes @ map Some (spec_postorder t))"
proof (induction t arbitrary: p d nodes)
  case NullPtr
  then show ?case by (cases p) simp_all
next
  case (OpNode a ts)
  from OpNode.prems(1) have p: "p = Some a" and rc: "represents_children h (child (h a)) ts"
    by (cases p; simp)+
  from OpNode.prems(2) obtain d' where d: "d = Suc d'" and hd: "foldr max (map height ts) 0 \<le> d'"
    by (cases d) simp_all
  have "PostOrderTraverse_children d' h (child (h a)) nodes =
          Some (nodes @ map Some (concat (map spec_postorder ts)))"
  proof (rule PostOrderTraverse_children_shape [OF _ rc])
    fix t q ns
    assume "t \<in> set ts" "represents h q t"
    moreover from \<open>t \<in> set ts\<close> have "height t \<le> d'"
      using height_child hd le_trans by blast
    ultimately show "PostOrderTraverse d' h q ns = Some (ns @ map Some (spec_postorder t))"
      by (rule OpNode.IH)
  qed
  then show ?case by (simp add: p d)
qed

text \<open>
  Claim C3. Where the store holds a tree below the pointer \<open>p\<close> (it has a shape
  \<open>t\<close>, and the calls may nest as deep as the tree is high), the iterator built
  from \<open>p\<close> returns, and its sequence is the postorder of the tree, all children of
  an operator left to right before the operator itself, followed by one null end
  marker. For the root R (address 1) with the children A (2) and B (3), and A with
  the child C (4), the sequence is C, A, B, R and the marker.
\<close>

theorem Iterator_postorder:
  assumes "represents h p t" and "height t \<le> d"
  shows "Iterator d h p = Some (map Some (spec_postorder t) @ [None])"
  using PostOrderTraverse_shape [OF assms, of "[]"] by (simp add: Iterator_def)

theorem Iterator_postorder_witness:
  "represents rabc_ops (Some 1) rabc_shape \<and> height rabc_shape \<le> 3
   \<and> Iterator 3 rabc_ops (Some 1) = Some [Some 4, Some 2, Some 3, Some 1, None]"
  using Iterator_postorder [of rabc_ops "Some 1" rabc_shape 3]
  by (simp add: rabc_ops_def rabc_shape_def fresh_op_def)

text \<open>
  Claim C10. The iterator built from a null root returns, whatever the store and
  the bound on the nesting: \<^verbatim>\<open>PostOrderTraverse\<close> returns at once, no operator is
  visited, and the sequence holds the null end marker alone. So does \<open>begin\<close> on
  a tree without a root, and a loop over that sequence ends at once.
\<close>

theorem Iterator_null:
  "Iterator d h None = Some [None]
   \<and> begin_itr d (w\<lparr>root := None\<rparr>) None = Some [None]
   \<and> Launch_loop C [None] w = Some (OK, w)"
  by (simp add: Iterator_def begin_itr_def)

subsection \<open>Launch\<close>

lemma PrintNode_children_shape:
  assumes "\<And>t p. t \<in> set ts \<Longrightarrow> represents h p t \<Longrightarrow> PrintNode d h p = Some ()"
      and "represents_children h cs ts"
  shows "PrintNode_children d h cs = Some ()"
  using assms
proof (induction ts arbitrary: cs)
  case Nil
  then show ?case by (cases cs) simp_all
next
  case (Cons t ts)
  then obtain c cs' where cs: "cs = c # cs'" by (cases cs) auto
  with Cons.prems have r: "represents h c t" "represents_children h cs' ts" by simp_all
  have "PrintNode d h c = Some ()"
    by (rule Cons.prems(1) [of t c]) (simp_all add: r)
  moreover have "PrintNode_children d h cs' = Some ()"
  proof (rule Cons.IH [OF _ r(2)])
    fix t' q
    assume "t' \<in> set ts" "represents h q t'"
    then show "PrintNode d h q = Some ()" using Cons.prems(1) [of t' q] by simp
  qed
  ultimately show ?case by (simp add: cs)
qed

lemma PrintNode_shape:
  "represents h p t \<Longrightarrow> nonnull t \<Longrightarrow> height t \<le> d \<Longrightarrow> PrintNode d h p = Some ()"
proof (induction t arbitrary: p d)
  case NullPtr
  then show ?case by simp
next
  case (OpNode a ts)
  from OpNode.prems(1) have p: "p = Some a" and rc: "represents_children h (child (h a)) ts"
    by (cases p; simp)+
  from OpNode.prems(3) obtain d' where d: "d = Suc d'" and hd: "foldr max (map height ts) 0 \<le> d'"
    by (cases d) simp_all
  have "PrintNode_children d' h (child (h a)) = Some ()"
  proof (rule PrintNode_children_shape [OF _ rc])
    fix t q
    assume t: "t \<in> set ts" and q: "represents h q t"
    from t OpNode.prems(2) have "nonnull t" by (simp add: list_all_iff)
    moreover from t have "height t \<le> d'"
      using height_child hd le_trans by blast
    ultimately show "PrintNode d' h q = Some ()"
      using OpNode.IH t q by blast
  qed
  then show ?case by (simp add: p d)
qed

lemma op_task_state [simp]:
  "op_task (h(a := (h a)\<lparr>state := s\<rparr>)) b = op_task h b"
  by (simp add: op_task_def)

text \<open>The loop over the whole sequence, with a task group that accepts every request.\<close>

lemma Launch_loop_accepting:
  assumes "\<forall>g n f. tg_accepts C g n f = OK"
  shows "Launch_loop C (map Some xs @ [None]) w =
     Some (OK, w\<lparr>ops := (\<lambda>a. if a \<in> set xs then (ops w a)\<lparr>state := kDeOpRunning\<rparr> else ops w a),
                 tg := tg w @ map (op_task (ops w)) (filter (\<lambda>a. \<not> inlined (ops w a)) xs)\<rparr>)"
proof (induction xs arbitrary: w)
  case Nil
  then show ?case by simp
next
  case (Cons a xs)
  define h1 where "h1 = (ops w)(a := (ops w a)\<lparr>state := kDeOpRunning\<rparr>)"
  define g1 where "g1 = (if inlined (ops w a) then tg w else tg w @ [op_task (ops w) a])"
  have inl: "\<And>b. inlined (h1 b) = inlined (ops w b)" by (simp add: h1_def)
  have tsk: "\<And>b. op_task h1 b = op_task (ops w) b" by (simp add: h1_def)
  have marked: "(\<lambda>b. if b \<in> set xs then (h1 b)\<lparr>state := kDeOpRunning\<rparr> else h1 b) =
        (\<lambda>b. if b \<in> set (a # xs) then (ops w b)\<lparr>state := kDeOpRunning\<rparr> else ops w b)"
    by (rule ext) (simp add: h1_def)
  have tasks: "g1 @ map (op_task h1) (filter (\<lambda>b. \<not> inlined (h1 b)) xs) =
        tg w @ map (op_task (ops w)) (filter (\<lambda>b. \<not> inlined (ops w b)) (a # xs))"
    by (simp add: inl tsk g1_def)
  have step: "Launch_loop C (map Some (a # xs) @ [None]) w =
        Launch_loop C (map Some xs @ [None]) (w\<lparr>ops := h1, tg := g1\<rparr>)"
    using assms by (simp add: Let_def CreateAsyncTask_def op_task_def h1_def g1_def)
  have "Launch_loop C (map Some xs @ [None]) (w\<lparr>ops := h1, tg := g1\<rparr>) =
      Some (OK, w\<lparr>ops := (\<lambda>b. if b \<in> set xs then (h1 b)\<lparr>state := kDeOpRunning\<rparr> else h1 b),
                  tg := g1 @ map (op_task h1) (filter (\<lambda>b. \<not> inlined (h1 b)) xs)\<rparr>)"
    using Cons.IH [of "w\<lparr>ops := h1, tg := g1\<rparr>"] by (simp cong: if_cong)
  then show ?case
    unfolding step marked tasks by simp
qed

lemma count_op_tasks:
  "distinct xs \<Longrightarrow>
     length (filter (\<lambda>x. snd x = OpRef a) (map (op_task h) (filter P xs))) =
       (if a \<in> set xs \<and> P a then 1 else 0)"
  by (induction xs) (auto simp: op_task_def)

text \<open>
  Claim C2, as amended. Take a tree in state Ready: the store holds a tree below
  the root, with no null pointer in it and no operator twice. When the profiling
  manager, if enabled, initialises and the task group accepts every request,
  \<^verbatim>\<open>Launch\<close> returns OK; every operator of the tree is Running; the task group has
  gained the monitor task if profiling is enabled, and then one task for each
  operator that is not inlined, labelled with its id, in postorder (children
  before parents), and none for an inlined operator; the tree is in state
  Executing.
\<close>

theorem Launch_ready:
  assumes "tree_state w = kDeTStateReady"
      and "represents (ops w) (root w) t" and "nonnull t" and "height t \<le> d"
      and "distinct (spec_postorder t)"
      and "IsProfilingEnable C \<Longrightarrow> Initialize C = OK"
      and "\<forall>g n f. tg_accepts C g n f = OK"
  shows "Launch C d w =
      Some (OK, w\<lparr>ops := (\<lambda>a. if a \<in> set (spec_postorder t)
                               then (ops w a)\<lparr>state := kDeOpRunning\<rparr> else ops w a),
                  tg := tg w
                    @ (if IsProfilingEnable C then [(''Monitor Thread launched'', MonitorRef)] else [])
                    @ map (op_task (ops w)) (filter (\<lambda>a. \<not> inlined (ops w a)) (spec_postorder t)),
                  tree_state := kDeTStateExecuting\<rparr>)
    \<and> (\<forall>a\<in>set (spec_postorder t).
          length (filter (\<lambda>x. snd x = OpRef a)
            (map (op_task (ops w)) (filter (\<lambda>a. \<not> inlined (ops w a)) (spec_postorder t))))
          = (if inlined (ops w a) then 0 else 1))"
proof
  have pr: "Print d w None = Some ()"
    using PrintNode_shape [OF assms(2,3,4)] by (simp add: Print_def)
  define w1 where "w1 = (if IsProfilingEnable C
     then w\<lparr>tg := tg w @ [(''Monitor Thread launched'', MonitorRef)]\<rparr> else w)"
  have prof: "(if IsProfilingEnable C then
                 (case Initialize C of
                    Error c m \<Rightarrow> (Error c m, w)
                  | OK \<Rightarrow> CreateAsyncTask C ''Monitor Thread launched'' MonitorRef w)
               else (OK, w)) = (OK, w1)"
    using assms(6,7) by (simp add: w1_def CreateAsyncTask_def)
  have w1: "ops w1 = ops w" "root w1 = root w" by (simp_all add: w1_def)
  have it: "begin_itr d w1 None = Some (map Some (spec_postorder t) @ [None])"
    using PostOrderTraverse_shape [OF assms(2,4), of "[]"]
    by (simp add: begin_itr_def Iterator_def w1)
  show "Launch C d w = Some (OK, w\<lparr>ops := (\<lambda>a. if a \<in> set (spec_postorder t)
                               then (ops w a)\<lparr>state := kDeOpRunning\<rparr> else ops w a),
                  tg := tg w
                    @ (if IsProfilingEnable C then [(''Monitor Thread launched'', MonitorRef)] else [])
                    @ map (op_task (ops w)) (filter (\<lambda>a. \<not> inlined (ops w a)) (spec_postorder t)),
                  tree_state := kDeTStateExecuting\<rparr>)"
    unfolding Launch_def
    using assms(1) pr prof it Launch_loop_accepting [OF assms(7), of "spec_postorder t" w1] w1
    by (simp add: w1_def cong: if_cong)
  show "\<forall>a\<in>set (spec_postorder t).
          length (filter (\<lambda>x. snd x = OpRef a)
            (map (op_task (ops w)) (filter (\<lambda>a. \<not> inlined (ops w a)) (spec_postorder t))))
          = (if inlined (ops w a) then 0 else 1)"
    using count_op_tasks [OF assms(5)] by simp
qed

text \<open>
  The tree of three levels with the inlined operator in the middle: two tasks,
  for the leaf (id 2) and then for the root (id 0), and all three operators
  Running.
\<close>

theorem Launch_ready_witness:
  "map_option (\<lambda>(s, w). (s, tree_state w, tg w, map (\<lambda>a. state (ops w a)) [1, 2, 3]))
      (Launch quiet 3 (chain_world kDeTStateReady))
     = Some (OK, kDeTStateExecuting,
         [(''Op launched, OperatorId:2'', OpRef 3), (''Op launched, OperatorId:0'', OpRef 1)],
         [kDeOpRunning, kDeOpRunning, kDeOpRunning])"
  using Launch_ready [of "chain_world kDeTStateReady" chain_shape 3 quiet]
  by (simp add: chain_world_def chain_ops_def chain_shape_def fresh_op_def quiet_def op_task_def)

text \<open>
  Claim C2 as stated fails: on the same tree in state Ready, with a task group
  that rejects the request, \<^verbatim>\<open>Launch\<close> returns the group's error, no task is
  spawned and the tree stays in state Ready.
\<close>

theorem Launch_rejected_counterexample:
  "tree_state (chain_world kDeTStateReady) = kDeTStateReady
   \<and> map_option (\<lambda>(s, w). (s, tree_state w, tg w))
        (Launch rejecting_group 3 (chain_world kDeTStateReady))
     = Some (Error (kOtherError 3) ''no thread'', kDeTStateReady, [])"
  by (simp add: Launch_def Print_def begin_itr_def Iterator_def chain_world_def chain_ops_def
      fresh_op_def quiet_def rejecting_group_def CreateAsyncTask_def numeral_3_eq_3 Let_def)

text \<open>
  Claim C8. In every state but Ready, \<^verbatim>\<open>Launch\<close> returns the error of
  \<^verbatim>\<open>RETURN_STATUS_UNEXPECTED\<close>, whose message gives the state found and the state
  expected (Ready, 3), and leaves the whole program state as it was: no task is
  spawned, the state of the tree and of every operator is unchanged. So does a
  second \<^verbatim>\<open>Launch\<close> after a first one that succeeded.
\<close>

theorem Launch_invalid_state:
  assumes "tree_state w \<noteq> kDeTStateReady"
  shows "Launch C d w =
    Some (Error kUnexpectedError
       (''Invalid tree state for launching tree. Current state: ''
          @ to_string (TreeState_int (tree_state w)) @ '' Expected state: 3''), w)"
  using assms by (simp add: Launch_def RETURN_STATUS_UNEXPECTED_def)

theorem Launch_invalid_state_witness:
  "map_option (\<lambda>(s, w). (s, tree_state w)) (Launch quiet 3 (chain_world kDeTStateReady))
     = Some (OK, kDeTStateExecuting)
   \<and> Launch quiet 3 (snd (the (Launch quiet 3 (chain_world kDeTStateReady)))) =
     Some (Error kUnexpectedError
        ''Invalid tree state for launching tree. Current state: 4 Expected state: 3'',
      snd (the (Launch quiet 3 (chain_world kDeTStateReady))))"
  using Launch_invalid_state [of "snd (the (Launch quiet 3 (chain_world kDeTStateReady)))" quiet 3]
  by (simp add: Launch_def Print_def begin_itr_def Iterator_def chain_world_def chain_ops_def
      fresh_op_def quiet_def CreateAsyncTask_def numeral_3_eq_3 Let_def)

subsection \<open>Prepare\<close>

text \<open>
  Claim C4. \<^verbatim>\<open>Prepare\<close> runs the removal pass first, on the state it is called in.
  If the pass fails, \<^verbatim>\<open>Prepare\<close> returns the error of the pass and the state the pass
  left: nothing of the later phases is run, so the tree state is not set to
  Prepare and no operator is walked. If the pass succeeds, the (empty)
  optimisation and the post action follow, which sets the tree state to Prepare,
  and then the recursive walk from the root on that state, which the check of
  \<^verbatim>\<open>PrepareDeprecated\<close> lets through; the walk's error is returned as it is, and its
  success sets the tree state to Ready.
\<close>

theorem Prepare_phases:
  "Prepare C d w =
     (case RemovalPass_Run C w False of
        (Error c m, w1, modified) \<Rightarrow> Some (Error c m, w1)
      | (OK, w1, modified) \<Rightarrow>
          (case PrepareNode C d (root w1) (w1\<lparr>tree_state := kDeTStatePrepare\<rparr>) of
             None \<Rightarrow> None
           | Some (Error c m, w2) \<Rightarrow> Some (Error c m, w2)
           | Some (OK, w2) \<Rightarrow> Some (OK, w2\<lparr>tree_state := kDeTStateReady\<rparr>)))"
  by (simp add: Prepare_def PrepareTreePreAction_def Optimize_def PrepareTreePostAction_def
      PrepareDeprecated_def split: prod.splits Status.splits option.splits)

text \<open>A removal pass that fails on a tree in state Building: the tree is left in Building.\<close>

theorem Prepare_phases_witness:
  "Prepare failing_pass 3 (chain_world kDeTStateBuilding) =
     Some (Error (kOtherError 5) ''removal failed'', chain_world kDeTStateBuilding)"
  using Prepare_phases [of failing_pass 3 "chain_world kDeTStateBuilding"]
  by (simp add: failing_pass_def quiet_def)

lemma BitClear_clears: "BitClear x y AND y = 0"
  by (simp add: BitClear_def and.assoc)

text \<open>
  Claim C5, as amended. When \<^verbatim>\<open>PrepareNode\<close> on an operator Y returns OK, the walk
  has run as follows: after Y's pre-action hook the flags Y declares were merged
  into \<^verbatim>\<open>prepare_flags_\<close> by bitwise OR, the children were walked, Y's post-action
  hook ran, and the last step set \<^verbatim>\<open>prepare_flags_\<close> to its value after that hook
  AND-NOT the flags Y declares. So every bit that Y declares is 0 afterwards,
  whether or not an operator above Y on the path declares the same bit, and every
  other bit is as the hook left it. The clearing is by bit value, not by owner.
\<close>

theorem PrepareNode_clears_own_flags:
  assumes "PrepareNode C d (Some y) w = Some (OK, w')"
      and "PrepareNodePreAction C y w = (s, w1)"
  shows "(\<exists>d' w3 w4. d = Suc d' \<and> s = OK
            \<and> PrepareNode_children C d' (child (ops w1 y))
                  (w1\<lparr>prepare_flags := prepare_flags w1 OR PrepareFlags (ops w1 y)\<rparr>) = Some (OK, w3)
            \<and> PrepareNodePostAction C y w3 = (OK, w4)
            \<and> w' = w4\<lparr>prepare_flags := prepare_flags w4 AND NOT (PrepareFlags (ops w1 y))\<rparr>)
         \<and> prepare_flags w' AND PrepareFlags (ops w1 y) = 0"
proof -
  from assms(1) obtain d' where d: "d = Suc d'" by (cases d) simp_all
  from assms have sOK: "s = OK"
    unfolding d by (cases s) simp_all
  define w2 where "w2 = w1\<lparr>prepare_flags := prepare_flags w1 OR PrepareFlags (ops w1 y)\<rparr>"
  from assms sOK obtain s3 w3 where
    ch: "PrepareNode_children C d' (child (ops w1 y)) w2 = Some (s3, w3)"
    unfolding d by (auto simp: Let_def w2_def BitSet_def split: option.splits)
  from assms sOK ch have s3: "s3 = OK"
    unfolding d by (cases s3) (simp_all add: Let_def w2_def BitSet_def)
  obtain s4 w4 where post: "PrepareNodePostAction C y w3 = (s4, w4)"
    by (cases "PrepareNodePostAction C y w3")
  from assms sOK ch s3 post have s4: "s4 = OK"
    unfolding d by (cases s4) (simp_all add: Let_def w2_def BitSet_def)
  from assms sOK ch s3 post s4
  have res: "w' = w4\<lparr>prepare_flags := prepare_flags w4 AND NOT (PrepareFlags (ops w1 y))\<rparr>"
    unfolding d by (simp add: Let_def w2_def BitSet_def BitClear_def)
  have zero: "prepare_flags w' AND PrepareFlags (ops w1 y) = 0"
    unfolding res using BitClear_clears [of "prepare_flags w4" "PrepareFlags (ops w1 y)"]
    by (simp add: BitClear_def)
  show ?thesis
    using d sOK ch s3 post s4 res zero unfolding w2_def by blast
qed

text \<open>
  Y, which declares bit 0, entered with the bits 0 and 1 set: bit 0 is cleared and
  bit 1 is kept.
\<close>

theorem PrepareNode_clears_own_flags_witness:
  "PrepareNode quiet 1 (Some 2) (xy_world\<lparr>prepare_flags := 3\<rparr>)
     = Some (OK, xy_world\<lparr>prepare_flags := 2\<rparr>)
   \<and> PrepareNodePreAction quiet 2 (xy_world\<lparr>prepare_flags := 3\<rparr>)
     = (OK, xy_world\<lparr>prepare_flags := 3\<rparr>)
   \<and> prepare_flags (xy_world\<lparr>prepare_flags := 2\<rparr>)
       AND PrepareFlags (ops (xy_world\<lparr>prepare_flags := 3\<rparr>) 2) = 0"
  using PrepareNode_clears_own_flags [of quiet 1 2 "xy_world\<lparr>prepare_flags := 3\<rparr>"
      "xy_world\<lparr>prepare_flags := 2\<rparr>" OK "xy_world\<lparr>prepare_flags := 3\<rparr>"]
  by (simp add: xy_world_def xy_ops_def fresh_op_def quiet_def BitSet_def BitClear_def)

text \<open>
  Claim C5 as stated fails. X (address 1) declares bit 0 and so does its child Y
  (address 2). Entered with the flags as X has set them, the walk of Y returns
  with \<^verbatim>\<open>prepare_flags_\<close> 0: the bit of X is gone. In the walk from X, the post-action
  hook of X, which runs after the children and before X clears its own flags,
  finds bit 0 clear.
\<close>

theorem PrepareNode_shared_flag_counterexample:
  "PrepareFlags (xy_ops 1) = 1 \<and> PrepareFlags (xy_ops 2) = 1 \<and> child (xy_ops 1) = [Some 2]
   \<and> map_option (\<lambda>(s, w). (s, prepare_flags w))
        (PrepareNode quiet 1 (Some 2)
           (xy_world\<lparr>prepare_flags := BitSet (prepare_flags xy_world) (PrepareFlags (xy_ops 1))\<rparr>))
       = Some (OK, 0)
   \<and> map_option fst (PrepareNode probe 2 (Some 1) xy_world)
       = Some (Error (kOtherError 9) ''bit 0 is clear at X'')"
  by (simp add: xy_world_def xy_ops_def fresh_op_def quiet_def probe_def BitSet_def BitClear_def
      numeral_2_eq_2)

subsection \<open>The lifecycle\<close>

lemma AssociateNode_tree_state:
  "TreeState_int (tree_state w) \<le> TreeState_int (tree_state (snd (AssociateNode a w)))"
  by (cases "tree_state w") (simp_all add: AssociateNode_def set_id_def set_tree_def Let_def)

lemma AssignRoot_tree_state:
  "TreeState_int (tree_state w) \<le> TreeState_int (tree_state (snd (AssignRoot a w)))"
  by (cases "tree_state w")
     (simp_all add: AssignRoot_def AssociateNode_def set_id_def set_tree_def Let_def)

lemma keeps_pre:
  assumes "keeps_tree_state C" and "PrepareNodePreAction C a w = (s, w1)"
  shows "tree_state w1 = tree_state w"
proof -
  from assms(1) have "tree_state (snd (PrepareNodePreAction C a w)) = tree_state w"
    unfolding keeps_tree_state_def by blast
  with assms(2) show ?thesis by simp
qed

lemma keeps_post:
  assumes "keeps_tree_state C" and "PrepareNodePostAction C a w = (s, w1)"
  shows "tree_state w1 = tree_state w"
proof -
  from assms(1) have "tree_state (snd (PrepareNodePostAction C a w)) = tree_state w"
    unfolding keeps_tree_state_def by blast
  with assms(2) show ?thesis by simp
qed

lemma keeps_pass:
  assumes "keeps_tree_state C" and "RemovalPass_Run C w b = (s, w1, b1)"
  shows "tree_state w1 = tree_state w"
proof -
  from assms(1) have "tree_state (fst (snd (RemovalPass_Run C w b))) = tree_state w"
    unfolding keeps_tree_state_def by blast
  with assms(2) show ?thesis by simp
qed

lemma PrepareNode_tree_state:
  "keeps_tree_state C \<Longrightarrow> PrepareNode C d p w = Some (s, w') \<Longrightarrow> tree_state w' = tree_state w"
  "keeps_tree_state C \<Longrightarrow> PrepareNode_children C d cs w = Some (s, w') \<Longrightarrow>
     tree_state w' = tree_state w"
proof (induction C d p w and C d cs w arbitrary: s w' and s w'
    rule: PrepareNode_PrepareNode_children.induct)
  case (1 C d w)
  then show ?case by simp
next
  case (2 C a w)
  then show ?case by simp
next
  case (3 C d a w)
  note k = "3.prems"(1) and run = "3.prems"(2)
  obtain s1 w1 where pre: "PrepareNodePreAction C a w = (s1, w1)"
    by (cases "PrepareNodePreAction C a w")
  have k1: "tree_state w1 = tree_state w"
    using keeps_pre [OF k pre] .
  show ?case
  proof (cases s1)
    case (Error c m)
    then show ?thesis using run pre k1 by simp
  next
    case OK
    define w2 where "w2 = w1\<lparr>prepare_flags := BitSet (prepare_flags w1) (PrepareFlags (ops w1 a))\<rparr>"
    from run pre OK obtain s3 w3 where
      ch: "PrepareNode_children C d (child (ops w2 a)) w2 = Some (s3, w3)"
      by (auto simp: Let_def w2_def split: option.splits)
    have k3: "tree_state w3 = tree_state w2"
      using "3.IH" [of s1 w1 "PrepareFlags (ops w1 a)" w2 s3 w3] pre OK k ch
      by (simp add: w2_def)
    show ?thesis
    proof (cases s3)
      case (Error c m)
      then show ?thesis using run pre OK ch k1 k3 by (simp add: Let_def w2_def)
    next
      case OK3: OK
      obtain s4 w4 where post: "PrepareNodePostAction C a w3 = (s4, w4)"
        by (cases "PrepareNodePostAction C a w3")
      have k4: "tree_state w4 = tree_state w3"
        using keeps_post [OF k post] .
      show ?thesis
        using run pre OK ch OK3 post k1 k3 k4
        by (cases s4) (auto simp: Let_def w2_def)
    qed
  qed
next
  case (4 C d w)
  then show ?case by simp
next
  case (5 C d i rest w)
  note k = "5.prems"(1) and run = "5.prems"(2)
  from run obtain s1 w1 where one: "PrepareNode C d i w = Some (s1, w1)"
    by (auto split: option.splits)
  have k1: "tree_state w1 = tree_state w" using "5.IH"(1) [OF k one] .
  show ?case
  proof (cases s1)
    case (Error c m)
    then show ?thesis using run one k1 by simp
  next
    case OK
    then have "PrepareNode_children C d rest w1 = Some (s, w')" using run one by simp
    then show ?thesis using "5.IH"(2) [of "(s1, w1)" s1 w1 s w'] one k OK k1 by simp
  qed
qed


lemma Launch_loop_tree_state:
  "Launch_loop C itr w = Some (s, w') \<Longrightarrow> tree_state w' = tree_state w"
proof (induction C itr w rule: Launch_loop.induct)
  case (1 C w)
  then show ?case by simp
next
  case (2 C itr w)
  then show ?case by simp
next
  case (3 C a itr w)
  then show ?case
    by (auto simp: Let_def CreateAsyncTask_def split: if_splits Status.splits)
qed

lemma PrepareTreePreAction_tree_state:
  assumes "keeps_tree_state C"
  shows "tree_state (snd (PrepareTreePreAction C w)) = tree_state w"
proof -
  obtain s w1 b1 where r: "RemovalPass_Run C w False = (s, w1, b1)"
    by (cases "RemovalPass_Run C w False") auto
  from keeps_pass [OF assms r] r show ?thesis
    by (cases s) (simp_all add: PrepareTreePreAction_def)
qed

lemma PrepareDeprecated_tree_state:
  assumes "keeps_tree_state C" and "PrepareDeprecated C d w = Some (s, w')"
  shows "TreeState_int (tree_state w) \<le> TreeState_int (tree_state w')"
proof (cases "tree_state w = kDeTStatePrepare")
  case False
  with assms(2) show ?thesis by (simp add: PrepareDeprecated_def)
next
  case True
  with assms(2) obtain s1 w1 where n: "PrepareNode C d (root w) w = Some (s1, w1)"
    by (auto simp: PrepareDeprecated_def split: option.splits)
  have "tree_state w1 = tree_state w" using PrepareNode_tree_state(1) [OF assms(1) n] .
  with assms(2) True n show ?thesis
    by (cases s1) (auto simp: PrepareDeprecated_def)
qed

lemma Prepare_tree_state:
  assumes "keeps_tree_state C" and "Prepare C d w = Some (s, w')"
      and "TreeState_int (tree_state w) \<le> TreeState_int kDeTStatePrepare"
  shows "TreeState_int (tree_state w) \<le> TreeState_int (tree_state w')"
proof -
  obtain s1 w1 where p: "PrepareTreePreAction C w = (s1, w1)"
    by (cases "PrepareTreePreAction C w")
  have k1: "tree_state w1 = tree_state w"
    using PrepareTreePreAction_tree_state [OF assms(1), of w] p by simp
  show ?thesis
  proof (cases s1)
    case (Error c m)
    with assms(2) p k1 show ?thesis by (simp add: Prepare_def)
  next
    case OK
    with assms(2) p obtain s4 w4 where
      dep: "PrepareDeprecated C d (w1\<lparr>tree_state := kDeTStatePrepare\<rparr>) = Some (s4, w4)"
      and res: "w' = w4"
      by (auto simp: Prepare_def Optimize_def PrepareTreePostAction_def
          split: option.splits Status.splits)
    from PrepareDeprecated_tree_state [OF assms(1) dep]
    have "TreeState_int kDeTStatePrepare \<le> TreeState_int (tree_state w4)" by simp
    with assms(3) res show ?thesis by simp
  qed
qed

lemma Launch_tree_state:
  assumes "Launch C d w = Some (s, w')"
  shows "TreeState_int (tree_state w) \<le> TreeState_int (tree_state w')"
proof (cases "tree_state w = kDeTStateReady")
  case False
  with assms show ?thesis by (simp add: Launch_def)
next
  case True
  show ?thesis
  proof (cases "IsProfilingEnable C")
    case False
    with assms True show ?thesis
      by (auto simp: Launch_def split: option.splits Status.splits dest!: Launch_loop_tree_state)
  next
    case prof: True
    with assms True show ?thesis
      by (auto simp: Launch_def CreateAsyncTask_def
          split: option.splits Status.splits dest!: Launch_loop_tree_state)
  qed
qed

lemma call_tree_state:
  assumes "keeps_tree_state C" and "call C d x w = Some (s, w')"
      and "x = CallPrepare \<or> x = CallPrepareTreePostAction \<Longrightarrow>
             TreeState_int (tree_state w) \<le> TreeState_int kDeTStatePrepare"
  shows "TreeState_int (tree_state w) \<le> TreeState_int (tree_state w')"
proof (cases x)
  case (CallAssociateNode a)
  with assms(2) AssociateNode_tree_state [of w a] show ?thesis by auto
next
  case (CallAssignRoot a)
  with assms(2) AssignRoot_tree_state [of w a] show ?thesis by auto
next
  case CallPrepare
  with assms Prepare_tree_state [of C d w s w'] show ?thesis by simp
next
  case CallPrepareTreePreAction
  with assms(2) PrepareTreePreAction_tree_state [OF assms(1), of w] show ?thesis by auto
next
  case CallOptimize
  with assms(2) show ?thesis by (auto simp: Optimize_def)
next
  case CallPrepareTreePostAction
  with assms(2,3) show ?thesis by (auto simp: PrepareTreePostAction_def)
next
  case CallPrepareDeprecated
  with assms(2) PrepareDeprecated_tree_state [OF assms(1), of d w s w'] show ?thesis by simp
next
  case CallLaunch
  with assms(2) Launch_tree_state [of C d w s w'] show ?thesis by simp
qed

text \<open>
  What the operations that check the tree state achieve: with passes and hooks
  that leave \<^verbatim>\<open>tree_state_\<close> alone, along every sequence of public operations in
  which \<^verbatim>\<open>Prepare\<close> and \<^verbatim>\<open>PrepareTreePostAction\<close> are called only while the tree
  is in state Init, Building or Prepare, the states after the calls, from the
  first state on, are in ascending order.
\<close>

lemma tree_state_forward:
  assumes "keeps_tree_state C" and "prepares_early C d xs w"
  shows "sorted (map (\<lambda>v. TreeState_int (tree_state v)) (w # run C d xs w))"
  using assms(2)
proof (induction xs arbitrary: w)
  case Nil
  then show ?case by simp
next
  case (Cons x xs)
  show ?case
  proof (cases "call C d x w")
    case None
    then show ?thesis by simp
  next
    case (Some r)
    obtain s w1 where r: "r = (s, w1)" by (cases r)
    have le: "TreeState_int (tree_state w) \<le> TreeState_int (tree_state w1)"
      using call_tree_state [OF assms(1), of d x w s w1] Some r Cons.prems
      by (auto split: if_splits)
    have "prepares_early C d xs w1" using Cons.prems Some r by simp
    then have "sorted (map (\<lambda>v. TreeState_int (tree_state v)) (w1 # run C d xs w1))"
      by (rule Cons.IH)
    with le Some r show ?thesis by auto
  qed
qed

lemma keeps_quiet: "keeps_tree_state quiet"
  by (simp add: keeps_tree_state_def quiet_def)

text \<open>Build, prepare and launch a tree, and launch it once more.\<close>

lemma tree_state_forward_example:
  "prepares_early quiet 3 [CallAssociateNode 1, CallAssignRoot 1, CallPrepare, CallLaunch, CallLaunch]
     (ExecutionTree rabc_ops 7)
   \<and> map tree_state
       (run quiet 3 [CallAssociateNode 1, CallAssignRoot 1, CallPrepare, CallLaunch, CallLaunch]
          (ExecutionTree rabc_ops 7))
     = [kDeTStateBuilding, kDeTStateBuilding, kDeTStateReady, kDeTStateExecuting, kDeTStateExecuting]"
  using tree_state_forward [OF keeps_quiet, of 3
      "[CallAssociateNode 1, CallAssignRoot 1, CallPrepare, CallLaunch, CallLaunch]"
      "ExecutionTree rabc_ops 7"]
  by (simp add: ExecutionTree_def rabc_ops_def fresh_op_def quiet_def
      AssociateNode_def AssignRoot_def set_id_def set_tree_def kInvalidOperatorId_def
      Prepare_def PrepareTreePreAction_def Optimize_def PrepareTreePostAction_def PrepareDeprecated_def
      Launch_def Print_def begin_itr_def Iterator_def CreateAsyncTask_def
      numeral_3_eq_3 Let_def BitSet_def BitClear_def)

text \<open>
  Claim C6. The code moves the state backward. \<^verbatim>\<open>PrepareTreePostAction\<close> assigns
  the state Prepare without looking at the state the tree is in, and \<^verbatim>\<open>Prepare\<close>
  calls it just before \<^verbatim>\<open>PrepareDeprecated\<close>, whose own check of the state then
  always passes. A \<^verbatim>\<open>Prepare\<close> after a \<^verbatim>\<open>Launch\<close> that succeeded returns OK and
  takes the tree from Executing back to Ready. On a tree in state Executing,
  \<^verbatim>\<open>PrepareDeprecated\<close> alone returns the error "Invalid tree state", as
  \<^verbatim>\<open>AssociateNode\<close>, \<^verbatim>\<open>AssignRoot\<close> and \<^verbatim>\<open>Launch\<close> do outside their states.
\<close>

theorem Prepare_after_Launch_goes_back:
  "map tree_state
       (run quiet 3 [CallAssociateNode 1, CallAssignRoot 1, CallPrepare, CallLaunch, CallPrepare]
          (ExecutionTree rabc_ops 7))
     = [kDeTStateBuilding, kDeTStateBuilding, kDeTStateReady, kDeTStateExecuting, kDeTStateReady]
   \<and> map_option (\<lambda>(s, w). (s, tree_state w)) (Prepare quiet 3 (chain_world kDeTStateExecuting))
     = Some (OK, kDeTStateReady)
   \<and> map_option (\<lambda>(s, w). (s, tree_state w))
        (PrepareDeprecated quiet 3 (chain_world kDeTStateExecuting))
     = Some (Error kUnexpectedError
          ''Invalid tree state for preparing the tree. Current state: 4 Expected state: 2'',
        kDeTStateExecuting)"
  by (simp add: ExecutionTree_def rabc_ops_def chain_world_def chain_ops_def fresh_op_def quiet_def
      AssociateNode_def AssignRoot_def set_id_def set_tree_def kInvalidOperatorId_def
      Prepare_def PrepareTreePreAction_def Optimize_def PrepareTreePostAction_def PrepareDeprecated_def
      Launch_def Print_def begin_itr_def Iterator_def CreateAsyncTask_def
      RETURN_STATUS_UNEXPECTED_def numeral_3_eq_3 Let_def BitSet_def BitClear_def)

end
